theory Spec2Isabelle
  imports Main "HOL-Library.Sublist"
begin

section \<open>Python strings and text files\<close>

text \<open>
  A Python \<open>str\<close> is modelled as a \<open>string\<close> whose characters are read as the code
  points below 256. On that range \<open>str.isspace\<close> holds for the code points
  9 to 13, 28 to 32, 133 and 160, and the only decimal digits are \<open>0\<close> to \<open>9\<close>.
\<close>

definition newline :: char where
  "newline = CHR 0x0A"

definition isspace :: "char \<Rightarrow> bool" where
  "isspace c = (of_char c \<in> set [9, 10, 11, 12, 13, 28, 29, 30, 31, 32, 133, 160 :: nat])"

text \<open>\<open>sub in s\<close> on strings: \<open>sub\<close> occurs in \<open>s\<close> as a contiguous run.\<close>

fun contains :: "string \<Rightarrow> string \<Rightarrow> bool" where
  "contains sub [] = (sub = [])"
| "contains sub (c # cs) = (prefix sub (c # cs) \<or> contains sub cs)"

text \<open>
  The lines a text file yields when it is iterated over (or read with \<open>readlines\<close>) in
  text mode: the text is cut after every newline, the newline stays with its line, and
  a last line without a newline is yielded as it is. The text is the decoded one, in
  which every line ending already is a single newline.
\<close>

fun readlines :: "string \<Rightarrow> string list" where
  "readlines [] = []"
| "readlines (c # cs) =
     (if c = newline then [c] # readlines cs
      else (case readlines cs of [] \<Rightarrow> [[c]] | l # ls \<Rightarrow> (c # l) # ls))"

subsection \<open>Exceptions, the file system and the process\<close>

datatype oserror = FileNotFoundError | PermissionError | IsADirectoryError | OtherOSError

datatype exn = SystemExit nat | OSError oserror | UnicodeDecodeError

text \<open>
  What the file system answers during one run: \<open>open_r p\<close> is the error that opening
  \<open>p\<close> for reading raises, if any; \<open>open_w p\<close> the error that opening \<open>p\<close> for writing
  raises, if any; \<open>read p\<close> is the text that reading the opened \<open>p\<close> yields in this run,
  or \<open>None\<close> when its bytes do not decode. Where a script opens one path for reading
  and for writing, \<open>read p\<close> is what is left to read once the path is open for writing.
  Errors raised while writing to an opened file or closing it are not modelled.
\<close>

record world =
  open_r :: "string \<Rightarrow> oserror option"
  open_w :: "string \<Rightarrow> oserror option"
  read :: "string \<Rightarrow> string option"

text \<open>
  What is seen of a finished script: the lines it printed, the exception the
  interpreter reported with a traceback (one that nothing caught, other than
  \<open>SystemExit\<close>), and the exit status.
\<close>

record process =
  stdout :: "string list"
  traceback :: "exn option"
  status :: nat

text \<open>
  The interpreter running \<open>main()\<close> as the script: a normal return exits with status 0,
  \<open>sys.exit(n)\<close> with status \<open>n\<close>, any other exception that reaches the top is reported
  and the status is 1.
\<close>

fun run :: "string list \<times> (exn + 'a) \<Rightarrow> process" where
  "run (out, Inr _) = \<lparr>stdout = out, traceback = None, status = 0\<rparr>"
| "run (out, Inl (SystemExit n)) = \<lparr>stdout = out, traceback = None, status = n\<rparr>"
| "run (out, Inl e) = \<lparr>stdout = out, traceback = Some e, status = 1\<rparr>"

section \<open>remove\_lines.py\<close>

text \<open>
  The loop of \<open>remove_lines\<close>, with the text written to the output file so far as its
  state: every \<open>outfile.write(line)\<close> appends the line.
\<close>

fun write_loop :: "string \<Rightarrow> string list \<Rightarrow> string \<Rightarrow> string" where
  "write_loop search_string [] outfile = outfile"
| "write_loop search_string (line # rest) outfile =
     (if \<not> contains search_string line
      then write_loop search_string rest (outfile @ line)
      else write_loop search_string rest outfile)"

text \<open>
  \<open>remove_lines\<close> opens the input, then the output, then runs the loop. The result is
  the exception raised, or the text the output file holds when the function returns.
\<close>

definition remove_lines :: "world \<Rightarrow> string \<Rightarrow> string \<Rightarrow> string \<Rightarrow> exn + string" where
  "remove_lines w input_filename search_string output_filename =
     (case open_r w input_filename of
        Some e \<Rightarrow> Inl (OSError e)
      | None \<Rightarrow>
         (case open_w w output_filename of
            Some e \<Rightarrow> Inl (OSError e)
          | None \<Rightarrow>
             (case read w input_filename of
                None \<Rightarrow> Inl UnicodeDecodeError
              | Some text \<Rightarrow> Inr (write_loop search_string (readlines text) []))))"

definition quote :: "string \<Rightarrow> string" where
  "quote s = [CHR 0x27] @ s @ [CHR 0x27]"

definition remove_lines_main :: "world \<Rightarrow> string list \<Rightarrow> string list \<times> (exn + string)" where
  "remove_lines_main w argv =
     (if length argv \<noteq> 4
      then ([''Usage: python remove_lines.py <input_file> <search_string> <output_file>''],
            Inl (SystemExit 1))
      else
        (let input_filename = argv ! 1;
             search_string = argv ! 2;
             output_filename = argv ! 3
         in case remove_lines w input_filename search_string output_filename of
              Inl e \<Rightarrow> ([], Inl e)
            | Inr text \<Rightarrow>
                ([''Lines containing '' @ quote search_string @ '' have been written to ''
                    @ quote output_filename @ ''.''],
                 Inr text)))"

section \<open>firstline.py\<close>

text \<open>\<open>s.strip()\<close>: the whitespace at both ends is dropped.\<close>

definition py_strip :: "string \<Rightarrow> string" where
  "py_strip s = rev (dropWhile isspace (rev (dropWhile isspace s)))"

text \<open>
  \<open>s.split()\<close>: the maximal runs of characters that are not whitespace, in order.
  \<open>split_from w s\<close> reads \<open>s\<close> with the field begun so far in \<open>w\<close>, last character first.
\<close>

fun split_from :: "string \<Rightarrow> string \<Rightarrow> string list" where
  "split_from w [] = (if w = [] then [] else [rev w])"
| "split_from w (c # cs) =
     (if isspace c
      then (if w = [] then split_from [] cs else rev w # split_from [] cs)
      else split_from (c # w) cs)"

definition py_split :: "string \<Rightarrow> string list" where
  "py_split s = split_from [] s"

text \<open>
  \<open>int(s)\<close> on a string without whitespace, which is all that \<open>split()\<close> hands over:
  an optional sign, then decimal digits, where single underscores may stand between
  two digits. \<open>None\<close> is the \<open>ValueError\<close>, which \<open>int\<close> also raises for a numeral of
  more digits than the interpreter's limit for the conversion of strings; the
  script leaves that limit at its default, 4300. The sign and the underscores do not
  count as digits, leading zeros do.
  \<open>int_digits n k prev s\<close> reads \<open>s\<close> with the value \<open>n\<close> and the number \<open>k\<close> of digits
  read so far; \<open>prev\<close> says that the character before was a digit.
\<close>

definition max_str_digits :: nat where
  "max_str_digits = 4300"

definition isdigit :: "char \<Rightarrow> bool" where
  "isdigit c = (48 \<le> (of_char c :: nat) \<and> (of_char c :: nat) \<le> 57)"

definition digit_value :: "char \<Rightarrow> int" where
  "digit_value c = int (of_char c) - 48"

fun int_digits :: "int \<Rightarrow> nat \<Rightarrow> bool \<Rightarrow> string \<Rightarrow> int option" where
  "int_digits n k prev [] = (if prev \<and> k \<le> max_str_digits then Some n else None)"
| "int_digits n k prev (c # cs) =
     (if isdigit c then int_digits (10 * n + digit_value c) (k + 1) True cs
      else if c = CHR ''_'' \<and> prev then int_digits n k False cs
      else None)"

definition py_int :: "string \<Rightarrow> int option" where
  "py_int s =
     (case s of
        [] \<Rightarrow> None
      | c # cs \<Rightarrow>
          if c = CHR ''-'' then map_option uminus (int_digits 0 0 False cs)
          else if c = CHR ''+'' then int_digits 0 0 False cs
          else int_digits 0 0 False s)"

text \<open>
  \<open>next(i for i, line in enumerate(lines) if marker in line)\<close>; \<open>None\<close> is the
  \<open>StopIteration\<close>.
\<close>

definition next_index :: "string \<Rightarrow> string list \<Rightarrow> nat option" where
  "next_index marker lines =
     map_option fst (find (\<lambda>(i, line). contains marker line) (enumerate 0 lines))"

text \<open>\<open>xs[i:j]\<close> for indices that are not negative.\<close>

definition slice :: "nat \<Rightarrow> nat \<Rightarrow> 'a list \<Rightarrow> 'a list" where
  "slice i j xs = take (j - i) (drop i xs)"

text \<open>
  The loop over the lines between the markers: \<open>Some l\<close> when it prints \<open>l\<close> and
  returns, \<open>None\<close> when it runs to its end.
\<close>

fun scan :: "string list \<Rightarrow> string option" where
  "scan [] = None"
| "scan (line # rest) =
     (let parts = py_split (py_strip line) in
      if length parts \<noteq> 7 then scan rest
      else (case py_int (parts ! 2) of
              None \<Rightarrow> scan rest
            | Some third_field \<Rightarrow>
                if third_field < 6 then Some (py_strip line) else scan rest))"

definition start_marker :: string where
  "start_marker = ''OVERALL BEST:''"

definition end_marker :: string where
  "end_marker = ''Timings By Test Type:''"

definition markers_missing :: string where
  "markers_missing = ''Error: Could not find required markers in the file.''"

definition no_line_found :: string where
  "no_line_found = ''No line found where the third field is less than 6.''"

definition firstline_main :: "world \<Rightarrow> string list \<Rightarrow> string list \<times> (exn + unit)" where
  "firstline_main w argv =
     (if length argv \<noteq> 2
      then ([''Usage: python3 script.py <filename>''], Inl (SystemExit 1))
      else
        (let filename = argv ! 1 in
         case open_r w filename of
           Some e \<Rightarrow>
             if e = FileNotFoundError
             then ([''Error: File '' @ quote filename @ '' not found.''], Inl (SystemExit 1))
             else ([], Inl (OSError e))
         | None \<Rightarrow>
            (case read w filename of
               None \<Rightarrow> ([], Inl UnicodeDecodeError)
             | Some text \<Rightarrow>
                (let lines = readlines text in
                 case next_index start_marker lines of
                   None \<Rightarrow> ([markers_missing], Inl (SystemExit 1))
                 | Some start_index \<Rightarrow>
                    (case next_index end_marker lines of
                       None \<Rightarrow> ([markers_missing], Inl (SystemExit 1))
                     | Some end_index \<Rightarrow>
                        (case scan (slice (start_index + 1) end_index lines) of
                           Some printed \<Rightarrow> ([printed], Inr ())
                         | None \<Rightarrow> ([no_line_found], Inr ())))))))"

section \<open>The words of the specification\<close>

text \<open>
  A qualifying line has exactly seven whitespace-separated fields, and its third
  field parses as an integer below 6, where to parse is what \<open>int\<close> accepts.
\<close>

definition qualifying :: "string \<Rightarrow> bool" where
  "qualifying line =
     (length (py_split line) = 7 \<and>
      (case py_int (py_split line ! 2) of None \<Rightarrow> False | Some n \<Rightarrow> n < 6))"

text \<open>
  A malformed line has a number of fields other than seven, or seven fields of which
  the third does not parse as an integer.
\<close>

definition malformed :: "string \<Rightarrow> bool" where
  "malformed line =
     (length (py_split line) \<noteq> 7 \<or>
      (length (py_split line) = 7 \<and> py_int (py_split line ! 2) = None))"

text \<open>
  \<open>first_containing marker lines i\<close>: line \<open>i\<close> contains the marker and no line before
  it does.
\<close>

definition first_containing :: "string \<Rightarrow> string list \<Rightarrow> nat \<Rightarrow> bool" where
  "first_containing marker lines i =
     (i < length lines \<and> contains marker (lines ! i) \<and>
      (\<forall>l \<in> set (take i lines). \<not> contains marker l))"

section \<open>Lines as they stand in a file\<close>

text \<open>
  The lines of a text file as they stand in the file: a terminated line ends with its
  only newline, an unterminated one is not empty and has none. In a well-formed
  sequence of lines only the last one may be unterminated.
\<close>

definition terminated :: "string \<Rightarrow> bool" where
  "terminated l = (l \<noteq> [] \<and> last l = newline \<and> newline \<notin> set (butlast l))"

definition unterminated :: "string \<Rightarrow> bool" where
  "unterminated l = (l \<noteq> [] \<and> newline \<notin> set l)"

fun wf_lines :: "string list \<Rightarrow> bool" where
  "wf_lines [] = True"
| "wf_lines [l] = (terminated l \<or> unterminated l)"
| "wf_lines (l # ls) = (terminated l \<and> wf_lines ls)"

section \<open>Example inputs\<close>

text \<open>A file system in which every file opens and holds the given text.\<close>

definition holding :: "string \<Rightarrow> world" where
  "holding text = \<lparr>open_r = (\<lambda>p. None), open_w = (\<lambda>p. None), read = (\<lambda>p. Some text)\<rparr>"

text \<open>The text of a file whose lines are given without their newlines.\<close>

definition text_of :: "string list \<Rightarrow> string" where
  "text_of ls = concat (map (\<lambda>l. l @ [newline]) ls)"

text \<open>Example logs for the record locator.\<close>

definition log_found :: string where
  "log_found = text_of [''OVERALL BEST:'', ''a b 7 d e f g'', ''  a b 3 d e f g '',
     ''a b 2 d e f g'', ''Timings By Test Type:'']"

definition log_none :: string where
  "log_none = text_of [''OVERALL BEST:'', ''a b 7 d e f g'', ''a b 3 d'',
     ''Timings By Test Type:'', ''a b 3 d e f g'']"

definition log_no_end :: string where
  "log_no_end = text_of [''OVERALL BEST:'', ''a b 3 d e f g'']"

definition log_malformed :: string where
  "log_malformed = text_of [''OVERALL BEST:'', ''a b 3.0 d e f g'', ''a b -1_0 d e f g'',
     ''Timings By Test Type:'']"

definition log_reversed :: string where
  "log_reversed = text_of [''Timings By Test Type:'', ''a b 3 d e f g'', ''OVERALL BEST:'',
     ''a b 3 d e f g'']"

text \<open>
  A log whose second record has a third field of 4301 digits, one more than \<open>int\<close>
  converts.
\<close>

definition oversize_field :: string where
  "oversize_field = replicate 4301 (CHR ''0'')"

definition oversize_line :: string where
  "oversize_line = ''a b '' @ oversize_field @ '' d e f g''"

definition log_oversize :: string where
  "log_oversize = text_of [''OVERALL BEST:'', ''a b 3.0 d e f g'', oversize_line,
     ''Timings By Test Type:'']"

text \<open>Example file systems in which opening fails.\<close>

definition no_source :: "oserror \<Rightarrow> world" where
  "no_source e = \<lparr>open_r = (\<lambda>p. Some e), open_w = (\<lambda>p. None), read = (\<lambda>p. Some [])\<rparr>"

definition no_destination :: "oserror \<Rightarrow> world" where
  "no_destination e = \<lparr>open_r = (\<lambda>p. None), open_w = (\<lambda>p. Some e), read = (\<lambda>p. Some [])\<rparr>"

definition undecodable :: world where
  "undecodable = \<lparr>open_r = (\<lambda>p. None), open_w = (\<lambda>p. None), read = (\<lambda>p. None)\<rparr>"

section \<open>Strings, lines and text\<close>

lemma contains_iff: "contains sub s \<longleftrightarrow> (\<exists>p q. s = p @ sub @ q)"
proof (induction s)
  case Nil
  then show ?case by auto
next
  case (Cons c cs)
  show ?case
  proof
    assume "contains sub (c # cs)"
    then consider "prefix sub (c # cs)" | "contains sub cs" by auto
    then show "\<exists>p q. c # cs = p @ sub @ q"
    proof cases
      case 1
      then obtain q where "c # cs = sub @ q" by (auto simp: prefix_def)
      then have "c # cs = [] @ sub @ q" by simp
      then show ?thesis by blast
    next
      case 2
      with Cons.IH obtain p q where "cs = p @ sub @ q" by blast
      then have "c # cs = (c # p) @ sub @ q" by simp
      then show ?thesis by blast
    qed
  next
    assume "\<exists>p q. c # cs = p @ sub @ q"
    then obtain p q where pq: "c # cs = p @ sub @ q" by blast
    show "contains sub (c # cs)"
    proof (cases p)
      case Nil
      with pq have "prefix sub (c # cs)" by (simp add: prefix_def)
      then show ?thesis by simp
    next
      case (Cons a p')
      with pq have "cs = p' @ sub @ q" by simp
      with Cons.IH have "contains sub cs" by blast
      then show ?thesis by simp
    qed
  qed
qed

lemma contains_empty: "contains [] s"
  by (induction s) auto

lemma write_loop_eq:
  "write_loop s ls out = out @ concat (filter (\<lambda>l. \<not> contains s l) ls)"
  by (induction ls arbitrary: out) auto

subsection \<open>Lines and text\<close>

lemma concat_readlines: "concat (readlines t) = t"
  by (induction t) (auto split: list.splits)

lemma readlines_no_newline:
  "newline \<notin> set b \<Longrightarrow> readlines (b @ newline # t) = (b @ [newline]) # readlines t"
  by (induction b) auto

lemma terminated_iff: "terminated l \<longleftrightarrow> (\<exists>b. l = b @ [newline] \<and> newline \<notin> set b)"
proof
  assume "terminated l"
  then have "l = butlast l @ [newline] \<and> newline \<notin> set (butlast l)"
    by (auto simp: terminated_def dest: append_butlast_last_id)
  then show "\<exists>b. l = b @ [newline] \<and> newline \<notin> set b" by blast
next
  assume "\<exists>b. l = b @ [newline] \<and> newline \<notin> set b"
  then show "terminated l" by (auto simp: terminated_def)
qed

lemma readlines_terminated:
  "terminated l \<Longrightarrow> readlines (l @ t) = l # readlines t"
  by (auto simp: terminated_iff readlines_no_newline)

lemma readlines_unterminated:
  "unterminated l \<Longrightarrow> readlines l = [l]"
  unfolding unterminated_def
proof (induction l)
  case Nil then show ?case by simp
next
  case (Cons c cs)
  then show ?case by (cases cs) auto
qed

lemma wf_lines_Cons: "wf_lines (l # ls) \<Longrightarrow> wf_lines ls"
  by (cases ls) auto

lemma wf_lines_head: "wf_lines (l # ls) \<Longrightarrow> terminated l \<or> (unterminated l \<and> ls = [])"
  by (cases ls) auto

lemma wf_lines_readlines: "wf_lines (readlines t)"
proof (induction t)
  case Nil then show ?case by simp
next
  case (Cons c cs)
  show ?case
  proof (cases "c = newline")
    case True
    have "terminated [c]" using True by (simp add: terminated_def)
    with Cons True show ?thesis by (cases "readlines cs") auto
  next
    case False
    show ?thesis
    proof (cases "readlines cs")
      case Nil
      with False show ?thesis by (simp add: unterminated_def)
    next
      case (Cons l ls)
      from Cons.IH Cons have wf: "wf_lines (l # ls)" by simp
      have t: "terminated l \<Longrightarrow> terminated (c # l)"
        using False by (auto simp: terminated_def)
      have u: "unterminated l \<Longrightarrow> unterminated (c # l)"
        using False by (auto simp: unterminated_def)
      from wf t u have "wf_lines ((c # l) # ls)" by (cases ls) auto
      with False Cons show ?thesis by simp
    qed
  qed
qed

lemma wf_lines_filter: "wf_lines ls \<Longrightarrow> wf_lines (filter P ls)"
proof (induction ls)
  case Nil then show ?case by simp
next
  case (Cons l ls)
  then have IH: "wf_lines (filter P ls)" by (auto dest: wf_lines_Cons)
  from Cons.prems have h: "terminated l \<or> (unterminated l \<and> ls = [])" by (rule wf_lines_head)
  show ?case
  proof (cases "P l")
    case True
    with IH h show ?thesis by (cases "filter P ls") auto
  next
    case False
    with IH show ?thesis by simp
  qed
qed

lemma readlines_concat: "wf_lines ls \<Longrightarrow> readlines (concat ls) = ls"
proof (induction ls)
  case Nil then show ?case by simp
next
  case (Cons l ls)
  from Cons.prems have h: "terminated l \<or> (unterminated l \<and> ls = [])" by (rule wf_lines_head)
  then show ?case
  proof
    assume "terminated l"
    with Cons show ?thesis by (auto simp: readlines_terminated dest: wf_lines_Cons)
  next
    assume "unterminated l \<and> ls = []"
    then show ?thesis by (simp add: readlines_unterminated)
  qed
qed

section \<open>Marker indices, fields and the scan\<close>

lemma find_enumerate_None:
  "find (\<lambda>(i, line). P line) (enumerate n ls) = None \<longleftrightarrow> (\<forall>l \<in> set ls. \<not> P l)"
  by (induction ls arbitrary: n) auto

lemma find_enumerate_Some:
  "map_option fst (find (\<lambda>(i, line). P line) (enumerate n ls)) = Some k \<longleftrightarrow>
     (n \<le> k \<and> k - n < length ls \<and> P (ls ! (k - n)) \<and> (\<forall>j < k - n. \<not> P (ls ! j)))"
proof (induction ls arbitrary: n)
  case Nil
  then show ?case by simp
next
  case (Cons l ls)
  show ?case
  proof (cases "P l")
    case True
    show ?thesis
    proof (cases "k = n")
      case True
      with \<open>P l\<close> show ?thesis by simp
    next
      case False
      have "n \<le> k \<Longrightarrow> \<exists>j < k - n. P ((l # ls) ! j)"
        using False \<open>P l\<close> by (intro exI[of _ 0]) auto
      with False \<open>P l\<close> show ?thesis by auto
    qed
  next
    case False
    have "(n \<le> k \<and> k - n < length (l # ls) \<and> P ((l # ls) ! (k - n)) \<and> (\<forall>j < k - n. \<not> P ((l # ls) ! j)))
      \<longleftrightarrow> (Suc n \<le> k \<and> k - Suc n < length ls \<and> P (ls ! (k - Suc n)) \<and> (\<forall>j < k - Suc n. \<not> P (ls ! j)))"
      (is "?L \<longleftrightarrow> ?R")
    proof
      assume L: ?L
      with False have "k \<noteq> n" by (auto intro: ccontr)
      with L have kn: "Suc n \<le> k" by simp
      then obtain d where d: "k - n = Suc d" "k - Suc n = d" by (metis Suc_diff_le diff_Suc_Suc)
      from L d have "d < length ls" "P (ls ! d)" by auto
      moreover have "\<forall>j < d. \<not> P (ls ! j)"
      proof (intro allI impI)
        fix j assume "j < d"
        then have "Suc j < k - n" using d by simp
        with L have "\<not> P ((l # ls) ! Suc j)" by blast
        then show "\<not> P (ls ! j)" by simp
      qed
      ultimately show ?R using kn d by simp
    next
      assume R: ?R
      then obtain d where d: "k - n = Suc d" "k - Suc n = d" by (metis Suc_diff_le diff_Suc_Suc)
      have "\<forall>j < Suc d. \<not> P ((l # ls) ! j)"
      proof (intro allI impI)
        fix j assume "j < Suc d"
        then show "\<not> P ((l # ls) ! j)" using False R d by (cases j) auto
      qed
      with R d show ?L by auto
    qed
    with False Cons.IH[of "Suc n"] show ?thesis by simp
  qed
qed

lemma next_index_None: "next_index m ls = None \<longleftrightarrow> (\<forall>l \<in> set ls. \<not> contains m l)"
  by (simp add: next_index_def find_enumerate_None)

lemma first_containing_nth:
  "first_containing m ls i \<longleftrightarrow>
     i < length ls \<and> contains m (ls ! i) \<and> (\<forall>j < i. \<not> contains m (ls ! j))"
proof (cases "i < length ls")
  case True
  have "(\<forall>l \<in> set (take i ls). \<not> contains m l) \<longleftrightarrow> (\<forall>j < i. \<not> contains m (ls ! j))"
  proof
    assume a: "\<forall>l \<in> set (take i ls). \<not> contains m l"
    show "\<forall>j < i. \<not> contains m (ls ! j)"
    proof (intro allI impI)
      fix j assume j: "j < i"
      with True have "take i ls ! j \<in> set (take i ls)" by (intro nth_mem) simp
      with j a show "\<not> contains m (ls ! j)" by simp
    qed
  next
    assume a: "\<forall>j < i. \<not> contains m (ls ! j)"
    show "\<forall>l \<in> set (take i ls). \<not> contains m l"
    proof
      fix l assume "l \<in> set (take i ls)"
      then obtain j where "j < length (take i ls)" and "take i ls ! j = l"
        by (auto simp: in_set_conv_nth)
      then have "j < i" and "l = ls ! j" by simp_all
      with a show "\<not> contains m l" by simp
    qed
  qed
  then show ?thesis by (simp add: first_containing_def)
next
  case False
  then show ?thesis by (simp add: first_containing_def)
qed

lemma next_index_Some: "next_index m ls = Some i \<longleftrightarrow> first_containing m ls i"
  using find_enumerate_Some[of "contains m" 0 ls i]
  by (simp add: next_index_def first_containing_nth)

lemma split_from_dropWhile: "split_from [] (dropWhile isspace s) = split_from [] s"
  by (induction s) auto

lemma split_from_spaces: "\<forall>c \<in> set t. isspace c \<Longrightarrow> split_from w t = (if w = [] then [] else [rev w])"
  by (induction t arbitrary: w) auto

lemma split_from_append_spaces:
  "\<forall>c \<in> set t. isspace c \<Longrightarrow> split_from w (s @ t) = split_from w s"
  by (induction s arbitrary: w) (auto simp: split_from_spaces)

lemma split_from_rstrip: "split_from w (rev (dropWhile isspace (rev s))) = split_from w s"
proof -
  have "s = rev (dropWhile isspace (rev s)) @ rev (takeWhile isspace (rev s))"
    by (metis rev_append rev_rev_ident takeWhile_dropWhile_id)
  moreover have "\<forall>c \<in> set (rev (takeWhile isspace (rev s))). isspace c"
    by (auto dest: set_takeWhileD)
  ultimately show ?thesis by (metis split_from_append_spaces)
qed

lemma py_split_strip: "py_split (py_strip line) = py_split line"
  by (simp add: py_split_def py_strip_def split_from_rstrip split_from_dropWhile)

lemma split_from_fields:
  assumes "\<forall>c \<in> set w. \<not> isspace c" and "f \<in> set (split_from w s)"
  shows "f \<noteq> [] \<and> (\<forall>c \<in> set f. \<not> isspace c)"
  using assms
proof (induction s arbitrary: w f)
  case Nil
  then show ?case by (auto split: if_splits)
next
  case (Cons c cs)
  show ?case
  proof (cases "isspace c")
    case True
    have rest: "g \<in> set (split_from [] cs) \<Longrightarrow> g \<noteq> [] \<and> (\<forall>c \<in> set g. \<not> isspace c)" for g
      using Cons.IH[of "[]" g] by simp
    from Cons.prems(2) True have "f \<in> set (split_from [] cs) \<or> (w \<noteq> [] \<and> f = rev w)"
      by (auto split: if_splits)
    with rest[of f] Cons.prems(1) show ?thesis by auto
  next
    case False
    with Cons.prems have "\<forall>d \<in> set (c # w). \<not> isspace d" and "f \<in> set (split_from (c # w) cs)"
      by auto
    then show ?thesis by (rule Cons.IH)
  qed
qed

lemma py_split_fields: "f \<in> set (py_split s) \<Longrightarrow> f \<noteq> [] \<and> (\<forall>c \<in> set f. \<not> isspace c)"
  unfolding py_split_def by (rule split_from_fields) auto

lemma scan_find: "scan ls = map_option py_strip (find qualifying ls)"
  by (induction ls) (auto simp: Let_def py_split_strip qualifying_def split: option.splits)

lemma scan_malformed: "malformed l \<Longrightarrow> scan (l # ls) = scan ls"
  by (auto simp: Let_def py_split_strip malformed_def)

lemma malformed_not_qualifying: "malformed l \<Longrightarrow> \<not> qualifying l"
  by (auto simp: malformed_def qualifying_def)

lemma length_slice: "length (slice a b xs) = min (b - a) (length xs - a)"
  by (simp add: slice_def)

lemma nth_slice: "k < length (slice a b xs) \<Longrightarrow> slice a b xs ! k = xs ! (a + k)"
proof -
  assume k: "k < length (slice a b xs)"
  then have "a \<le> length xs" "k < b - a" by (auto simp: slice_def)
  then show ?thesis by (simp add: slice_def)
qed

lemma slice_empty: "b \<le> a \<Longrightarrow> slice a b xs = []"
  by (simp add: slice_def)

lemma set_slice: "set (slice a b xs) = {xs ! j | j. a \<le> j \<and> j < b \<and> j < length xs}"
proof -
  have "set (slice a b xs) = {slice a b xs ! k | k. k < length (slice a b xs)}"
    by (simp add: set_conv_nth)
  also have "\<dots> = {xs ! (a + k) | k. k < length (slice a b xs)}"
    using nth_slice by metis
  also have "\<dots> = {xs ! j | j. a \<le> j \<and> j < b \<and> j < length xs}"
  proof (intro equalityI subsetI)
    fix x assume "x \<in> {xs ! (a + k) | k. k < length (slice a b xs)}"
    then obtain k where "x = xs ! (a + k)" "k < min (b - a) (length xs - a)"
      by (auto simp: length_slice)
    then have "x = xs ! (a + k) \<and> a \<le> a + k \<and> a + k < b \<and> a + k < length xs" by auto
    then show "x \<in> {xs ! j | j. a \<le> j \<and> j < b \<and> j < length xs}" by blast
  next
    fix x assume "x \<in> {xs ! j | j. a \<le> j \<and> j < b \<and> j < length xs}"
    then obtain j where j: "x = xs ! j" "a \<le> j" "j < b" "j < length xs" by blast
    then have "x = xs ! (a + (j - a)) \<and> j - a < length (slice a b xs)"
      by (auto simp: length_slice)
    then show "x \<in> {xs ! (a + k) | k. k < length (slice a b xs)}" by blast
  qed
  finally show ?thesis .
qed

subsection \<open>The limit on the digits of a numeral\<close>

lemma int_digits_too_long:
  "max_str_digits < k + length (filter isdigit s) \<Longrightarrow> int_digits n k prev s = None"
proof (induction s arbitrary: n k prev)
  case Nil
  then show ?case by simp
next
  case (Cons c cs)
  show ?case
  proof (cases "isdigit c")
    case True
    with Cons.prems have "max_str_digits < (k + 1) + length (filter isdigit cs)" by simp
    then have "int_digits (10 * n + digit_value c) (k + 1) True cs = None" by (rule Cons.IH)
    with True show ?thesis by simp
  next
    case False
    with Cons.prems have "max_str_digits < k + length (filter isdigit cs)" by simp
    then have "int_digits n k False cs = None" by (rule Cons.IH)
    with False show ?thesis by simp
  qed
qed

lemma py_int_too_long:
  assumes "max_str_digits < length (filter isdigit s)"
  shows "py_int s = None"
proof (cases s)
  case Nil
  then show ?thesis by (simp add: py_int_def)
next
  case (Cons c cs)
  have nd: "\<not> isdigit (CHR ''-'')" "\<not> isdigit (CHR ''+'')" by (simp_all add: isdigit_def)
  have whole: "int_digits 0 0 False s = None"
    using assms int_digits_too_long[of 0 s 0 False] by simp
  have rest: "c = CHR ''-'' \<or> c = CHR ''+'' \<Longrightarrow> int_digits 0 0 False cs = None"
    using assms Cons nd int_digits_too_long[of 0 cs 0 False] by auto
  from Cons whole rest show ?thesis by (auto simp: py_int_def)
qed

lemma filter_isdigit_replicate:
  "isdigit c \<Longrightarrow> length (filter isdigit (replicate n c)) = n"
  by (induction n) auto

lemma set_oversize_field: "set oversize_field = {CHR ''0''}"
proof -
  have "(4301::nat) \<noteq> 0" by simp
  then have "set (replicate 4301 (CHR ''0'')) = {CHR ''0''}" by (rule set_replicate)
  then show ?thesis unfolding oversize_field_def .
qed

lemma py_int_oversize_field: "py_int oversize_field = None"
proof -
  have "isdigit (CHR ''0'')" by (simp add: isdigit_def)
  then have "length (filter isdigit (replicate 4301 (CHR ''0''))) = 4301"
    by (rule filter_isdigit_replicate)
  then have "length (filter isdigit oversize_field) = 4301"
    unfolding oversize_field_def .
  then have "max_str_digits < length (filter isdigit oversize_field)"
    by (simp add: max_str_digits_def)
  then show ?thesis by (rule py_int_too_long)
qed

lemma split_from_run:
  "\<forall>c \<in> set t. \<not> isspace c \<Longrightarrow> split_from w (t @ s) = split_from (rev t @ w) s"
  by (induction t arbitrary: w) auto

lemma split_from_token:
  assumes "t \<noteq> []" and "\<forall>c \<in> set t. \<not> isspace c" and "isspace c"
  shows "split_from [] (t @ c # s) = t # split_from [] s"
proof -
  have "split_from [] (t @ c # s) = split_from (rev t @ []) (c # s)"
    using assms(2) by (rule split_from_run)
  also have "\<dots> = t # split_from [] s"
    using assms(1,3) by simp
  finally show ?thesis .
qed

lemma oversize_field_nonempty: "oversize_field \<noteq> []"
proof
  assume "oversize_field = []"
  then have "set oversize_field = {}" by simp
  with set_oversize_field have "{CHR ''0''} = ({} :: char set)" by (simp only:)
  then show False by simp
qed

lemma py_split_oversize:
  "py_split (oversize_line @ [newline]) =
     [''a'', ''b'', oversize_field, ''d'', ''e'', ''f'', ''g'']"
proof -
  have sp: "isspace (CHR '' '')" and nl: "isspace newline" by code_simp+
  have "\<not> isspace (CHR ''0'')" by code_simp
  then have tz: "\<forall>c \<in> set oversize_field. \<not> isspace c"
    by (simp only: set_oversize_field) simp
  have ta: "\<forall>c \<in> set ''a''. \<not> isspace c" and tb: "\<forall>c \<in> set ''b''. \<not> isspace c"
    and td: "\<forall>c \<in> set ''d''. \<not> isspace c" and te: "\<forall>c \<in> set ''e''. \<not> isspace c"
    and tf: "\<forall>c \<in> set ''f''. \<not> isspace c" and tg: "\<forall>c \<in> set ''g''. \<not> isspace c"
    by code_simp+
  have n: "''a'' \<noteq> []" "''b'' \<noteq> []" "''d'' \<noteq> []" "''e'' \<noteq> []" "''f'' \<noteq> []" "''g'' \<noteq> []"
    by simp_all
  note eqs = split_from_token[OF n(1) ta sp] split_from_token[OF n(2) tb sp]
    split_from_token[OF oversize_field_nonempty tz sp] split_from_token[OF n(3) td sp]
    split_from_token[OF n(4) te sp] split_from_token[OF n(5) tf sp]
    split_from_token[OF n(6) tg nl]
  have shape: "oversize_line @ [newline] =
      ''a'' @ CHR '' '' # (''b'' @ CHR '' '' # (oversize_field @ CHR '' '' #
        (''d'' @ CHR '' '' # (''e'' @ CHR '' '' # (''f'' @ CHR '' '' # (''g'' @ newline # []))))))"
    by (simp add: oversize_line_def)
  show ?thesis
    by (simp only: py_split_def shape eqs split_from.simps(1) if_True simp_thms)
qed

lemma malformed_oversize: "malformed (oversize_line @ [newline])"
  by (simp add: malformed_def py_split_oversize py_int_oversize_field)

lemma contains_set: "contains sub s \<Longrightarrow> set sub \<subseteq> set s"
  by (auto simp: contains_iff)

lemma readlines_text_of:
  "\<forall>l \<in> set ls. newline \<notin> set l \<Longrightarrow> readlines (text_of ls) = map (\<lambda>l. l @ [newline]) ls"
  by (induction ls) (simp_all add: text_of_def readlines_no_newline)

lemma readlines_log_oversize:
  "readlines log_oversize =
     [''OVERALL BEST:'' @ [newline], ''a b 3.0 d e f g'' @ [newline],
      oversize_line @ [newline], ''Timings By Test Type:'' @ [newline]]"
proof -
  have "newline \<notin> set oversize_line"
    by (simp add: oversize_line_def set_oversize_field newline_def)
  moreover have "newline \<notin> set ''OVERALL BEST:''" "newline \<notin> set ''a b 3.0 d e f g''"
    "newline \<notin> set ''Timings By Test Type:''" by (simp_all add: newline_def)
  ultimately show ?thesis by (simp add: log_oversize_def readlines_text_of)
qed

lemma markers_log_oversize:
  "first_containing start_marker (readlines log_oversize) 0 \<and>
   first_containing end_marker (readlines log_oversize) 3"
proof -
  have s0: "contains start_marker (''OVERALL BEST:'' @ [newline])" by code_simp
  have e0: "\<not> contains end_marker (''OVERALL BEST:'' @ [newline])" by code_simp
  have e1: "\<not> contains end_marker (''a b 3.0 d e f g'' @ [newline])" by code_simp
  have e3: "contains end_marker (''Timings By Test Type:'' @ [newline])" by code_simp
  have "CHR ''T'' \<in> set end_marker" by (simp add: end_marker_def)
  moreover have "CHR ''T'' \<notin> set (oversize_line @ [newline])"
    by (simp add: oversize_line_def set_oversize_field newline_def)
  ultimately have e2: "\<not> contains end_marker (oversize_line @ [newline])"
    using contains_set by blast
  have "next_index start_marker (readlines log_oversize) = Some 0"
    using s0 by (simp add: readlines_log_oversize next_index_def)
  moreover have "next_index end_marker (readlines log_oversize) = Some 3"
    using e0 e1 e2 e3 by (simp add: readlines_log_oversize next_index_def)
  ultimately show ?thesis by (simp only: next_index_Some)
qed

lemma not_qualifying_oversize: "\<not> qualifying (oversize_line @ [newline])"
  by (simp add: qualifying_def py_split_oversize py_int_oversize_field)

section \<open>The substring filter\<close>

lemma remove_lines_ok:
  assumes "open_r w input_filename = None"
    and "open_w w output_filename = None"
    and "read w input_filename = Some text"
  shows "remove_lines w input_filename search_string output_filename =
           Inr (concat (filter (\<lambda>l. \<not> contains search_string l) (readlines text)))"
  using assms by (simp add: remove_lines_def write_loop_eq)

lemma remove_lines_Inr:
  assumes "remove_lines w input_filename search_string output_filename = Inr out"
  shows "\<exists>text. out = concat (filter (\<lambda>l. \<not> contains search_string l) (readlines text))"
  using assms by (auto simp: remove_lines_def write_loop_eq split: option.splits)

lemma readlines_kept:
  "readlines (concat (filter P (readlines text))) = filter P (readlines text)"
  by (simp add: readlines_concat wf_lines_filter wf_lines_readlines)

text \<open>
  C2. When the input file opens and reads and the output file opens, the output file
  holds exactly the input lines that do not contain the search string, each as it was
  and in the order of the input: its text is their concatenation, its lines are the
  filtered list of the input lines, a subsequence of them, and the lines written and
  the lines removed together are as many as the input lines.
\<close>

theorem remove_lines_filters:
  assumes "open_r w input_filename = None"
    and "open_w w output_filename = None"
    and "read w input_filename = Some text"
  shows "\<exists>out. remove_lines w input_filename search_string output_filename = Inr out \<and>
           out = concat (filter (\<lambda>l. \<not> contains search_string l) (readlines text)) \<and>
           readlines out = filter (\<lambda>l. \<not> contains search_string l) (readlines text) \<and>
           subseq (readlines out) (readlines text) \<and>
           length (readlines out) + length (filter (contains search_string) (readlines text))
             = length (readlines text)"
proof -
  let ?kept = "filter (\<lambda>l. \<not> contains search_string l) (readlines text)"
  have "remove_lines w input_filename search_string output_filename = Inr (concat ?kept)"
    using assms by (rule remove_lines_ok)
  moreover have "readlines (concat ?kept) = ?kept"
    by (rule readlines_kept)
  moreover have "subseq ?kept (readlines text)"
    by simp
  moreover have "length ?kept + length (filter (contains search_string) (readlines text))
                   = length (readlines text)"
    using sum_length_filter_compl[of "contains search_string" "readlines text"] by simp
  ultimately show ?thesis by simp
qed

theorem remove_lines_filters_witness:
  "open_r (holding (text_of [''keep1'', ''drop-me'', ''keep2''])) ''in.txt'' = None \<and>
   open_w (holding (text_of [''keep1'', ''drop-me'', ''keep2''])) ''out.txt'' = None \<and>
   read (holding (text_of [''keep1'', ''drop-me'', ''keep2''])) ''in.txt''
     = Some (text_of [''keep1'', ''drop-me'', ''keep2'']) \<and>
   (\<exists>out. remove_lines (holding (text_of [''keep1'', ''drop-me'', ''keep2'']))
            ''in.txt'' ''drop'' ''out.txt'' = Inr out \<and>
          readlines out = [''keep1'' @ [newline], ''keep2'' @ [newline]])"
proof -
  let ?t = "text_of [''keep1'', ''drop-me'', ''keep2'']"
  have h1: "open_r (holding ?t) ''in.txt'' = None"
    and h2: "open_w (holding ?t) ''out.txt'' = None"
    and h3: "read (holding ?t) ''in.txt'' = Some ?t"
    by (simp_all add: holding_def)
  have e: "filter (\<lambda>l. \<not> contains ''drop'' l) (readlines ?t)
             = [''keep1'' @ [newline], ''keep2'' @ [newline]]"
    by code_simp
  from remove_lines_filters[OF h1 h2 h3, of "''drop''"] e h1 h2 h3
  show ?thesis by auto
qed

text \<open>
  C8. With the empty search string every line contains it, so the output file is
  empty whatever the input holds, and the script ends normally: status 0 and no
  exception reported.
\<close>

theorem remove_lines_empty_search_string:
  assumes "open_r w input_filename = None"
    and "open_w w output_filename = None"
    and "read w input_filename = Some text"
  shows "remove_lines w input_filename [] output_filename = Inr [] \<and>
         status (run (remove_lines_main w [prog, input_filename, [], output_filename])) = 0 \<and>
         traceback (run (remove_lines_main w [prog, input_filename, [], output_filename])) = None"
proof -
  have "filter (\<lambda>l. \<not> contains [] l) (readlines text) = []"
    by (simp add: contains_empty)
  with assms have "remove_lines w input_filename [] output_filename = Inr []"
    by (simp add: remove_lines_ok)
  then show ?thesis by (simp add: remove_lines_main_def)
qed

theorem remove_lines_empty_search_string_witness:
  "text_of [''keep1'', ''drop-me''] \<noteq> [] \<and>
   remove_lines (holding (text_of [''keep1'', ''drop-me''])) ''in.txt'' [] ''out.txt'' = Inr [] \<and>
   status (run (remove_lines_main (holding (text_of [''keep1'', ''drop-me'']))
     [''remove_lines.py'', ''in.txt'', [], ''out.txt''])) = 0"
proof -
  let ?t = "text_of [''keep1'', ''drop-me'']"
  have h1: "open_r (holding ?t) ''in.txt'' = None"
    and h2: "open_w (holding ?t) ''out.txt'' = None"
    and h3: "read (holding ?t) ''in.txt'' = Some ?t"
    by (simp_all add: holding_def)
  have ne: "?t \<noteq> []" by (simp add: text_of_def)
  from remove_lines_empty_search_string[OF h1 h2 h3, of "''remove_lines.py''"] ne
  show ?thesis by simp
qed

text \<open>
  C9. The filter is idempotent: when a run has written the text \<open>out\<close>, a second run
  with the same search string on a file that holds \<open>out\<close> writes \<open>out\<close> again.
\<close>

theorem remove_lines_idempotent:
  assumes "remove_lines w input_filename search_string output_filename = Inr out"
    and "open_r w' input_filename' = None"
    and "open_w w' output_filename' = None"
    and "read w' input_filename' = Some out"
  shows "remove_lines w' input_filename' search_string output_filename' = Inr out"
proof -
  let ?P = "\<lambda>l. \<not> contains search_string l"
  from assms(1) obtain t where out: "out = concat (filter ?P (readlines t))"
    using remove_lines_Inr by blast
  have "readlines out = filter ?P (readlines t)"
    unfolding out by (rule readlines_kept)
  then have "concat (filter ?P (readlines out)) = out"
    by (simp add: out)
  with assms(2-4) show ?thesis
    by (simp add: remove_lines_ok)
qed

theorem remove_lines_idempotent_witness:
  "remove_lines (holding (text_of [''keep1'', ''drop-me'', ''keep2''] @ ''last''))
     ''in.txt'' ''drop'' ''out.txt'' = Inr (text_of [''keep1'', ''keep2''] @ ''last'') \<and>
   remove_lines (holding (text_of [''keep1'', ''keep2''] @ ''last''))
     ''out.txt'' ''drop'' ''again.txt'' = Inr (text_of [''keep1'', ''keep2''] @ ''last'')"
proof -
  let ?t = "text_of [''keep1'', ''drop-me'', ''keep2''] @ ''last''"
  let ?o = "text_of [''keep1'', ''keep2''] @ ''last''"
  have h1: "open_r (holding ?t) ''in.txt'' = None"
    and h2: "open_w (holding ?t) ''out.txt'' = None"
    and h3: "read (holding ?t) ''in.txt'' = Some ?t"
    and h4: "open_r (holding ?o) ''out.txt'' = None"
    and h5: "open_w (holding ?o) ''again.txt'' = None"
    and h6: "read (holding ?o) ''out.txt'' = Some ?o"
    by (simp_all add: holding_def)
  have e: "concat (filter (\<lambda>l. \<not> contains ''drop'' l) (readlines ?t)) = ?o"
    by code_simp
  have r: "remove_lines (holding ?t) ''in.txt'' ''drop'' ''out.txt'' = Inr ?o"
    using remove_lines_ok[OF h1 h2 h3, of "''drop''"] e by simp
  from remove_lines_idempotent[OF r h4 h5 h6] r show ?thesis by simp
qed

text \<open>
  C6, as amended. With three arguments, a source that cannot be opened and a
  destination that cannot be opened for writing raise an error the filter does not
  catch: the script prints nothing, the interpreter reports the error and the exit
  status is 1. With another number of arguments the script prints its usage line and
  exits with status 1. These are not the only failures: a source that opens but does
  not decode ends the run in the same way, with a \<open>UnicodeDecodeError\<close>.
\<close>

theorem remove_lines_main_failure_modes:
  "(open_r w input_filename = Some e \<longrightarrow>
      run (remove_lines_main w [prog, input_filename, search_string, output_filename]) =
        \<lparr>stdout = [], traceback = Some (OSError e), status = 1\<rparr>) \<and>
   (open_r w input_filename = None \<and> open_w w output_filename = Some e \<longrightarrow>
      run (remove_lines_main w [prog, input_filename, search_string, output_filename]) =
        \<lparr>stdout = [], traceback = Some (OSError e), status = 1\<rparr>) \<and>
   (open_r w input_filename = None \<and> open_w w output_filename = None \<and>
    read w input_filename = None \<longrightarrow>
      run (remove_lines_main w [prog, input_filename, search_string, output_filename]) =
        \<lparr>stdout = [], traceback = Some UnicodeDecodeError, status = 1\<rparr>) \<and>
   (length argv \<noteq> 4 \<longrightarrow>
      run (remove_lines_main w argv) =
        \<lparr>stdout = [''Usage: python remove_lines.py <input_file> <search_string> <output_file>''],
         traceback = None, status = 1\<rparr>)"
proof (intro conjI impI)
  assume "open_r w input_filename = Some e"
  then show "run (remove_lines_main w [prog, input_filename, search_string, output_filename]) =
      \<lparr>stdout = [], traceback = Some (OSError e), status = 1\<rparr>"
    by (simp add: remove_lines_main_def remove_lines_def)
next
  assume "open_r w input_filename = None \<and> open_w w output_filename = Some e"
  then show "run (remove_lines_main w [prog, input_filename, search_string, output_filename]) =
      \<lparr>stdout = [], traceback = Some (OSError e), status = 1\<rparr>"
    by (simp add: remove_lines_main_def remove_lines_def)
next
  assume "open_r w input_filename = None \<and> open_w w output_filename = None \<and>
    read w input_filename = None"
  then show "run (remove_lines_main w [prog, input_filename, search_string, output_filename]) =
      \<lparr>stdout = [], traceback = Some UnicodeDecodeError, status = 1\<rparr>"
    by (simp add: remove_lines_main_def remove_lines_def)
next
  assume "length argv \<noteq> 4"
  then show "run (remove_lines_main w argv) =
      \<lparr>stdout = [''Usage: python remove_lines.py <input_file> <search_string> <output_file>''],
       traceback = None, status = 1\<rparr>"
    by (simp add: remove_lines_main_def)
qed

theorem remove_lines_main_failure_modes_witness:
  "run (remove_lines_main (no_source FileNotFoundError)
      [''remove_lines.py'', ''in.txt'', ''drop'', ''out.txt'']) =
     \<lparr>stdout = [], traceback = Some (OSError FileNotFoundError), status = 1\<rparr> \<and>
   run (remove_lines_main (no_destination PermissionError)
      [''remove_lines.py'', ''in.txt'', ''drop'', ''out.txt'']) =
     \<lparr>stdout = [], traceback = Some (OSError PermissionError), status = 1\<rparr> \<and>
   run (remove_lines_main undecodable
      [''remove_lines.py'', ''in.txt'', ''drop'', ''out.txt'']) =
     \<lparr>stdout = [], traceback = Some UnicodeDecodeError, status = 1\<rparr> \<and>
   run (remove_lines_main (holding []) [''remove_lines.py'', ''in.txt'']) =
     \<lparr>stdout = [''Usage: python remove_lines.py <input_file> <search_string> <output_file>''],
      traceback = None, status = 1\<rparr>"
proof -
  let ?argv = "[''remove_lines.py'', ''in.txt'', ''drop'', ''out.txt'']"
  have a: "open_r (no_source FileNotFoundError) ''in.txt'' = Some FileNotFoundError"
    by (simp add: no_source_def)
  have b: "open_r (no_destination PermissionError) ''in.txt'' = None \<and>
      open_w (no_destination PermissionError) ''out.txt'' = Some PermissionError"
    by (simp add: no_destination_def)
  have c: "open_r undecodable ''in.txt'' = None \<and> open_w undecodable ''out.txt'' = None \<and>
      read undecodable ''in.txt'' = None"
    by (simp add: undecodable_def)
  have d: "length [''remove_lines.py'', ''in.txt''] \<noteq> 4" by simp
  note t = remove_lines_main_failure_modes
  from t[of "no_source FileNotFoundError" "''in.txt''" FileNotFoundError
      "''remove_lines.py''" "''drop''" "''out.txt''"] a
  have 1: "run (remove_lines_main (no_source FileNotFoundError) ?argv) =
     \<lparr>stdout = [], traceback = Some (OSError FileNotFoundError), status = 1\<rparr>"
    by blast
  from t[of "no_destination PermissionError" "''in.txt''" PermissionError
      "''remove_lines.py''" "''drop''" "''out.txt''"] b
  have 2: "run (remove_lines_main (no_destination PermissionError) ?argv) =
     \<lparr>stdout = [], traceback = Some (OSError PermissionError), status = 1\<rparr>"
    by blast
  from t[of undecodable "''in.txt''" FileNotFoundError "''remove_lines.py''" "''drop''"
      "''out.txt''"] c
  have 3: "run (remove_lines_main undecodable ?argv) =
     \<lparr>stdout = [], traceback = Some UnicodeDecodeError, status = 1\<rparr>"
    by blast
  from t[of "holding []" "''in.txt''" FileNotFoundError "''remove_lines.py''" "''drop''"
      "''out.txt''" "[''remove_lines.py'', ''in.txt'']"] d
  have 4: "run (remove_lines_main (holding []) [''remove_lines.py'', ''in.txt'']) =
     \<lparr>stdout = [''Usage: python remove_lines.py <input_file> <search_string> <output_file>''],
      traceback = None, status = 1\<rparr>"
    by blast
  from 1 2 3 4 show ?thesis by simp
qed

text \<open>
  The claim C6 as written names the source that is missing or cannot be read, the
  destination that cannot be written and the wrong argument count as the only
  failures. Here the argument count is right and both files open, and the run still
  ends with status 1: the source does not decode.
\<close>

theorem remove_lines_main_failure_modes_counterexample:
  "length [''remove_lines.py'', ''in.txt'', ''drop'', ''out.txt''] = 4 \<and>
   open_r undecodable ''in.txt'' = None \<and>
   open_w undecodable ''out.txt'' = None \<and>
   run (remove_lines_main undecodable [''remove_lines.py'', ''in.txt'', ''drop'', ''out.txt'']) =
     \<lparr>stdout = [], traceback = Some UnicodeDecodeError, status = 1\<rparr>"
  by (simp add: undecodable_def remove_lines_main_def remove_lines_def)

section \<open>The record locator\<close>

lemma scan_None: "scan ls = None \<longleftrightarrow> (\<forall>l \<in> set ls. \<not> qualifying l)"
  by (auto simp: scan_find find_None_iff)

lemma scan_first:
  assumes "i < length ls" and "qualifying (ls ! i)" and "\<forall>j < i. \<not> qualifying (ls ! j)"
  shows "scan ls = Some (py_strip (ls ! i))"
proof -
  from assms have "find qualifying ls = Some (ls ! i)"
    by (auto simp: find_Some_iff)
  then show ?thesis by (simp add: scan_find)
qed

lemma find_append_skip: "\<not> P l \<Longrightarrow> find P (pre @ l # post) = find P (pre @ post)"
  by (induction pre) auto

lemma scan_append_malformed: "malformed l \<Longrightarrow> scan (pre @ l # post) = scan (pre @ post)"
  by (simp add: scan_find find_append_skip malformed_not_qualifying)

lemma first_containing_unique:
  "first_containing m ls i \<Longrightarrow> first_containing m ls k \<Longrightarrow> i = k"
  unfolding first_containing_nth by (meson nat_neq_iff)

lemma firstline_main_read:
  assumes "open_r w filename = None" and "read w filename = Some text"
  shows "firstline_main w [prog, filename] =
     (case next_index start_marker (readlines text) of
        None \<Rightarrow> ([markers_missing], Inl (SystemExit 1))
      | Some start_index \<Rightarrow>
         (case next_index end_marker (readlines text) of
            None \<Rightarrow> ([markers_missing], Inl (SystemExit 1))
          | Some end_index \<Rightarrow>
             (case scan (slice (start_index + 1) end_index (readlines text)) of
                Some printed \<Rightarrow> ([printed], Inr ())
              | None \<Rightarrow> ([no_line_found], Inr ()))))"
  using assms by (simp add: firstline_main_def Let_def)

lemma firstline_main_markers:
  assumes "open_r w filename = None" and "read w filename = Some text"
    and "first_containing start_marker (readlines text) s"
    and "first_containing end_marker (readlines text) e"
  shows "run (firstline_main w [prog, filename]) =
     (case scan (slice (s + 1) e (readlines text)) of
        Some printed \<Rightarrow> \<lparr>stdout = [printed], traceback = None, status = 0\<rparr>
      | None \<Rightarrow> \<lparr>stdout = [no_line_found], traceback = None, status = 0\<rparr>)"
proof -
  from assms(3,4) have "next_index start_marker (readlines text) = Some s"
    and "next_index end_marker (readlines text) = Some e"
    by (simp_all add: next_index_Some)
  with assms(1,2) show ?thesis
    by (simp add: firstline_main_read split: option.splits)
qed

text \<open>
  C1. When the file holds both markers and line \<open>i\<close> is the first qualifying line
  strictly between the first line with the start marker and the first line with the
  end marker, the locator prints that line, stripped of the whitespace at both ends,
  and exits with status 0. The scan stops there: it is the scan of the region cut
  off after line \<open>i\<close>.
\<close>

theorem locator_prints_first_qualifying:
  assumes "open_r w filename = None" and "read w filename = Some text"
    and "first_containing start_marker (readlines text) s"
    and "first_containing end_marker (readlines text) e"
    and "s < i" and "i < e"
    and "qualifying (readlines text ! i)"
    and "\<forall>j. s < j \<and> j < i \<longrightarrow> \<not> qualifying (readlines text ! j)"
  shows "run (firstline_main w [prog, filename]) =
           \<lparr>stdout = [py_strip (readlines text ! i)], traceback = None, status = 0\<rparr> \<and>
         scan (slice (s + 1) e (readlines text)) = scan (slice (s + 1) (i + 1) (readlines text))"
proof -
  let ?ls = "readlines text"
  from assms(4) have e: "e < length ?ls" by (simp add: first_containing_def)
  have first: "scan (slice (s + 1) b ?ls) = Some (py_strip (?ls ! i))"
    if b: "i < b" "b \<le> length ?ls" for b
  proof -
    let ?r = "slice (s + 1) b ?ls"
    have len: "i - (s + 1) < length ?r"
      using assms(5) b by (auto simp: length_slice)
    have at: "?r ! (i - (s + 1)) = ?ls ! i"
      using nth_slice[OF len] assms(5) by simp
    have before: "\<forall>j < i - (s + 1). \<not> qualifying (?r ! j)"
    proof (intro allI impI)
      fix j assume j: "j < i - (s + 1)"
      with len have "j < length ?r" by simp
      then have "?r ! j = ?ls ! (s + 1 + j)" by (rule nth_slice)
      moreover from j assms(8) have "\<not> qualifying (?ls ! (s + 1 + j))" by simp
      ultimately show "\<not> qualifying (?r ! j)" by simp
    qed
    from at assms(7) have "qualifying (?r ! (i - (s + 1)))" by simp
    from scan_first[OF len this before] at show ?thesis by simp
  qed
  have "scan (slice (s + 1) e ?ls) = Some (py_strip (?ls ! i))"
    using first[of e] assms(6) e by simp
  moreover have "scan (slice (s + 1) (i + 1) ?ls) = Some (py_strip (?ls ! i))"
    using first[of "i + 1"] assms(6) e by simp
  ultimately show ?thesis
    using firstline_main_markers[OF assms(1-4), of prog] by simp
qed

theorem locator_prints_first_qualifying_witness:
  "first_containing start_marker (readlines log_found) 0 \<and>
   first_containing end_marker (readlines log_found) 4 \<and>
   \<not> qualifying (readlines log_found ! 1) \<and>
   qualifying (readlines log_found ! 2) \<and>
   qualifying (readlines log_found ! 3) \<and>
   run (firstline_main (holding log_found) [''firstline.py'', ''log.txt'']) =
     \<lparr>stdout = [''a b 3 d e f g''], traceback = None, status = 0\<rparr>"
proof -
  let ?ls = "readlines log_found"
  have o: "open_r (holding log_found) ''log.txt'' = None"
    and r: "read (holding log_found) ''log.txt'' = Some log_found"
    by (simp_all add: holding_def)
  have "next_index start_marker ?ls = Some 0" by code_simp
  then have s: "first_containing start_marker ?ls 0" by (simp only: next_index_Some)
  have "next_index end_marker ?ls = Some 4" by code_simp
  then have e: "first_containing end_marker ?ls 4" by (simp only: next_index_Some)
  have q1: "\<not> qualifying (?ls ! 1)" by code_simp
  have q2: "qualifying (?ls ! 2)" by code_simp
  have q3: "qualifying (?ls ! 3)" by code_simp
  have before: "\<forall>j. 0 < j \<and> j < 2 \<longrightarrow> \<not> qualifying (?ls ! j)"
  proof (intro allI impI)
    fix j :: nat assume "0 < j \<and> j < 2"
    then have "j = 1" by arith
    with q1 show "\<not> qualifying (?ls ! j)" by simp
  qed
  have p: "py_strip (?ls ! 2) = ''a b 3 d e f g''" by code_simp
  from locator_prints_first_qualifying[OF o r s e _ _ q2 before, of "''firstline.py''"] p
  have "run (firstline_main (holding log_found) [''firstline.py'', ''log.txt'']) =
     \<lparr>stdout = [''a b 3 d e f g''], traceback = None, status = 0\<rparr>"
    by simp
  with s e q1 q2 q3 show ?thesis by simp
qed

text \<open>
  C3. When the file has no line with the start marker, or no line with the end
  marker, the locator prints the error message about the markers and exits with
  status 1.
\<close>

theorem locator_marker_not_found:
  assumes "open_r w filename = None" and "read w filename = Some text"
    and "(\<forall>l \<in> set (readlines text). \<not> contains start_marker l) \<or>
         (\<forall>l \<in> set (readlines text). \<not> contains end_marker l)"
  shows "run (firstline_main w [prog, filename]) =
           \<lparr>stdout = [markers_missing], traceback = None, status = 1\<rparr>"
proof -
  from assms(3) have "next_index start_marker (readlines text) = None \<or>
      next_index end_marker (readlines text) = None"
    by (simp add: next_index_None)
  with assms(1,2) show ?thesis
    by (auto simp: firstline_main_read split: option.splits)
qed

theorem locator_marker_not_found_witness:
  "next_index end_marker (readlines log_no_end) = None \<and>
   run (firstline_main (holding log_no_end) [''firstline.py'', ''log.txt'']) =
     \<lparr>stdout = [''Error: Could not find required markers in the file.''],
      traceback = None, status = 1\<rparr>"
proof -
  have o: "open_r (holding log_no_end) ''log.txt'' = None"
    and r: "read (holding log_no_end) ''log.txt'' = Some log_no_end"
    by (simp_all add: holding_def)
  have n: "next_index end_marker (readlines log_no_end) = None" by code_simp
  then have "\<forall>l \<in> set (readlines log_no_end). \<not> contains end_marker l"
    by (simp only: next_index_None)
  then have "(\<forall>l \<in> set (readlines log_no_end). \<not> contains start_marker l) \<or>
      (\<forall>l \<in> set (readlines log_no_end). \<not> contains end_marker l)" ..
  from locator_marker_not_found[OF o r this, of "''firstline.py''"] n
  show ?thesis by (simp add: markers_missing_def)
qed

text \<open>
  C4. When the file holds both markers and no line strictly between the first line
  with the start marker and the first line with the end marker qualifies, the locator
  prints exactly the message that no line was found and exits with status 0.
\<close>

theorem locator_no_qualifying_line:
  assumes "open_r w filename = None" and "read w filename = Some text"
    and "first_containing start_marker (readlines text) s"
    and "first_containing end_marker (readlines text) e"
    and "\<forall>j. s < j \<and> j < e \<longrightarrow> \<not> qualifying (readlines text ! j)"
  shows "run (firstline_main w [prog, filename]) =
           \<lparr>stdout = [no_line_found], traceback = None, status = 0\<rparr>"
proof -
  have "\<forall>l \<in> set (slice (s + 1) e (readlines text)). \<not> qualifying l"
    using assms(5) by (auto simp: set_slice)
  then have "scan (slice (s + 1) e (readlines text)) = None"
    by (simp only: scan_None)
  then show ?thesis
    using firstline_main_markers[OF assms(1-4), of prog] by simp
qed

theorem locator_no_qualifying_line_witness:
  "first_containing start_marker (readlines log_none) 0 \<and>
   first_containing end_marker (readlines log_none) 3 \<and>
   \<not> qualifying (readlines log_none ! 1) \<and>
   \<not> qualifying (readlines log_none ! 2) \<and>
   run (firstline_main (holding log_none) [''firstline.py'', ''log.txt'']) =
     \<lparr>stdout = [''No line found where the third field is less than 6.''],
      traceback = None, status = 0\<rparr>"
proof -
  let ?ls = "readlines log_none"
  have o: "open_r (holding log_none) ''log.txt'' = None"
    and r: "read (holding log_none) ''log.txt'' = Some log_none"
    by (simp_all add: holding_def)
  have "next_index start_marker ?ls = Some 0" by code_simp
  then have s: "first_containing start_marker ?ls 0" by (simp only: next_index_Some)
  have "next_index end_marker ?ls = Some 3" by code_simp
  then have e: "first_containing end_marker ?ls 3" by (simp only: next_index_Some)
  have q1: "\<not> qualifying (?ls ! 1)" by code_simp
  have q2: "\<not> qualifying (?ls ! 2)" by code_simp
  have none: "\<forall>j. 0 < j \<and> j < 3 \<longrightarrow> \<not> qualifying (?ls ! j)"
  proof (intro allI impI)
    fix j :: nat assume "0 < j \<and> j < 3"
    then have "j = 1 \<or> j = 2" by arith
    with q1 q2 show "\<not> qualifying (?ls ! j)" by auto
  qed
  from locator_no_qualifying_line[OF o r s e none, of "''firstline.py''"] s e q1 q2
  show ?thesis by (simp add: no_line_found_def)
qed

text \<open>
  C5. A malformed line in the scanned region is skipped: the scan gives what it gives
  without that line, and the run ends with status 0 and no exception, printing the
  line the scan of the other lines finds, or else the message that no line was found.
\<close>

theorem locator_skips_malformed:
  assumes "open_r w filename = None" and "read w filename = Some text"
    and "first_containing start_marker (readlines text) s"
    and "first_containing end_marker (readlines text) e"
    and "slice (s + 1) e (readlines text) = pre @ l # post"
    and "malformed l"
  shows "scan (pre @ l # post) = scan (pre @ post) \<and>
         run (firstline_main w [prog, filename]) =
           (case scan (pre @ post) of
              Some printed \<Rightarrow> \<lparr>stdout = [printed], traceback = None, status = 0\<rparr>
            | None \<Rightarrow> \<lparr>stdout = [no_line_found], traceback = None, status = 0\<rparr>) \<and>
         status (run (firstline_main w [prog, filename])) = 0 \<and>
         traceback (run (firstline_main w [prog, filename])) = None"
proof -
  have skip: "scan (pre @ l # post) = scan (pre @ post)"
    using assms(6) by (rule scan_append_malformed)
  with assms(5) have "scan (slice (s + 1) e (readlines text)) = scan (pre @ post)"
    by simp
  with firstline_main_markers[OF assms(1-4), of prog] skip show ?thesis
    by (simp split: option.splits)
qed

theorem locator_skips_malformed_witness:
  "malformed (''a b 3.0 d e f g'' @ [newline]) \<and>
   slice (0 + 1) 3 (readlines log_malformed) =
     [] @ (''a b 3.0 d e f g'' @ [newline]) # [''a b -1_0 d e f g'' @ [newline]] \<and>
   scan ([] @ (''a b 3.0 d e f g'' @ [newline]) # [''a b -1_0 d e f g'' @ [newline]]) =
     scan ([] @ [''a b -1_0 d e f g'' @ [newline]]) \<and>
   run (firstline_main (holding log_malformed) [''firstline.py'', ''log.txt'']) =
     \<lparr>stdout = [''a b -1_0 d e f g''], traceback = None, status = 0\<rparr> \<and>
   malformed (oversize_line @ [newline]) \<and>
   slice (0 + 1) 3 (readlines log_oversize) =
     [''a b 3.0 d e f g'' @ [newline]] @ (oversize_line @ [newline]) # [] \<and>
   run (firstline_main (holding log_oversize) [''firstline.py'', ''log.txt'']) =
     \<lparr>stdout = [''No line found where the third field is less than 6.''],
      traceback = None, status = 0\<rparr>"
proof -
  let ?ls = "readlines log_malformed"
  have o: "open_r (holding log_malformed) ''log.txt'' = None"
    and r: "read (holding log_malformed) ''log.txt'' = Some log_malformed"
    by (simp_all add: holding_def)
  have "next_index start_marker ?ls = Some 0" by code_simp
  then have s: "first_containing start_marker ?ls 0" by (simp only: next_index_Some)
  have "next_index end_marker ?ls = Some 3" by code_simp
  then have e: "first_containing end_marker ?ls 3" by (simp only: next_index_Some)
  have m: "malformed (''a b 3.0 d e f g'' @ [newline])" by code_simp
  have sl: "slice (0 + 1) 3 ?ls =
      [] @ (''a b 3.0 d e f g'' @ [newline]) # [''a b -1_0 d e f g'' @ [newline]]"
    by code_simp
  have sc: "scan ([] @ [''a b -1_0 d e f g'' @ [newline]]) = Some ''a b -1_0 d e f g''"
    by code_simp
  from locator_skips_malformed[OF o r s e sl m, of "''firstline.py''"] sc m sl
  have first: "malformed (''a b 3.0 d e f g'' @ [newline]) \<and>
      slice (0 + 1) 3 (readlines log_malformed) =
        [] @ (''a b 3.0 d e f g'' @ [newline]) # [''a b -1_0 d e f g'' @ [newline]] \<and>
      scan ([] @ (''a b 3.0 d e f g'' @ [newline]) # [''a b -1_0 d e f g'' @ [newline]]) =
        scan ([] @ [''a b -1_0 d e f g'' @ [newline]]) \<and>
      run (firstline_main (holding log_malformed) [''firstline.py'', ''log.txt'']) =
        \<lparr>stdout = [''a b -1_0 d e f g''], traceback = None, status = 0\<rparr>"
    by simp
  have o': "open_r (holding log_oversize) ''log.txt'' = None"
    and r': "read (holding log_oversize) ''log.txt'' = Some log_oversize"
    by (simp_all add: holding_def)
  from markers_log_oversize
  have s': "first_containing start_marker (readlines log_oversize) 0"
    and e': "first_containing end_marker (readlines log_oversize) 3"
    by blast+
  have sl': "slice (0 + 1) 3 (readlines log_oversize) =
      [''a b 3.0 d e f g'' @ [newline]] @ (oversize_line @ [newline]) # []"
    by (simp add: readlines_log_oversize slice_def)
  have sc': "scan ([''a b 3.0 d e f g'' @ [newline]] @ []) = None"
    by code_simp
  from locator_skips_malformed[OF o' r' s' e' sl' malformed_oversize, of "''firstline.py''"]
  have "run (firstline_main (holding log_oversize) [''firstline.py'', ''log.txt'']) =
      (case scan ([''a b 3.0 d e f g'' @ [newline]] @ []) of
         Some printed \<Rightarrow> \<lparr>stdout = [printed], traceback = None, status = 0\<rparr>
       | None \<Rightarrow> \<lparr>stdout = [no_line_found], traceback = None, status = 0\<rparr>)"
    by blast
  then have second: "run (firstline_main (holding log_oversize) [''firstline.py'', ''log.txt'']) =
      \<lparr>stdout = [''No line found where the third field is less than 6.''],
       traceback = None, status = 0\<rparr>"
    by (simp only: sc' option.case no_line_found_def)
  from first malformed_oversize sl' second show ?thesis by blast
qed

text \<open>
  C7, as amended. When the file does not exist, the locator prints that the file was
  not found and exits with status 1. Any other error of opening the file is not
  caught: the script prints nothing, the interpreter reports the error and the exit
  status is 1.
\<close>

theorem locator_file_access_error:
  assumes "open_r w filename = Some e"
  shows "status (run (firstline_main w [prog, filename])) = 1 \<and>
         (if e = FileNotFoundError
          then stdout (run (firstline_main w [prog, filename]))
                 = [''Error: File '' @ quote filename @ '' not found.''] \<and>
               traceback (run (firstline_main w [prog, filename])) = None
          else stdout (run (firstline_main w [prog, filename])) = [] \<and>
               traceback (run (firstline_main w [prog, filename])) = Some (OSError e))"
  using assms by (simp add: firstline_main_def)

theorem locator_file_access_error_witness:
  "run (firstline_main (no_source FileNotFoundError) [''firstline.py'', ''log.txt'']) =
     \<lparr>stdout = [''Error: File '' @ quote ''log.txt'' @ '' not found.''],
      traceback = None, status = 1\<rparr> \<and>
   run (firstline_main (no_source PermissionError) [''firstline.py'', ''log.txt'']) =
     \<lparr>stdout = [], traceback = Some (OSError PermissionError), status = 1\<rparr>"
proof -
  have a: "open_r (no_source FileNotFoundError) ''log.txt'' = Some FileNotFoundError"
    and b: "open_r (no_source PermissionError) ''log.txt'' = Some PermissionError"
    by (simp_all add: no_source_def)
  have eq: "\<And>p out tb st. stdout p = out \<Longrightarrow> traceback p = tb \<Longrightarrow> status p = st \<Longrightarrow>
      p = \<lparr>stdout = out, traceback = tb, status = st\<rparr>"
    by simp
  from locator_file_access_error[OF a, of "''firstline.py''"]
    locator_file_access_error[OF b, of "''firstline.py''"]
  show ?thesis by (auto intro: eq)
qed

text \<open>
  The claim C7 as written has the locator print an explanatory message whenever the
  file cannot be opened. Here the file exists and opening it is refused: the script
  prints nothing.
\<close>

theorem locator_file_access_error_counterexample:
  "open_r (no_source PermissionError) ''log.txt'' = Some PermissionError \<and>
   stdout (run (firstline_main (no_source PermissionError) [''firstline.py'', ''log.txt''])) = [] \<and>
   traceback (run (firstline_main (no_source PermissionError) [''firstline.py'', ''log.txt''])) =
     Some (OSError PermissionError)"
  by (simp add: no_source_def firstline_main_def)

text \<open>
  C10. When the first line with the end marker comes at or before the first line with
  the start marker, the scanned region is empty; the locator prints the message that
  no line was found and exits with status 0.
\<close>

theorem locator_end_before_start:
  assumes "open_r w filename = None" and "read w filename = Some text"
    and "first_containing start_marker (readlines text) s"
    and "first_containing end_marker (readlines text) e"
    and "e \<le> s"
  shows "slice (s + 1) e (readlines text) = [] \<and>
         run (firstline_main w [prog, filename]) =
           \<lparr>stdout = [no_line_found], traceback = None, status = 0\<rparr>"
proof -
  from assms(5) have "slice (s + 1) e (readlines text) = []"
    by (simp add: slice_empty)
  then show ?thesis
    using firstline_main_markers[OF assms(1-4), of prog] by simp
qed

theorem locator_end_before_start_witness:
  "first_containing start_marker (readlines log_reversed) 2 \<and>
   first_containing end_marker (readlines log_reversed) 0 \<and>
   qualifying (readlines log_reversed ! 1) \<and>
   qualifying (readlines log_reversed ! 3) \<and>
   run (firstline_main (holding log_reversed) [''firstline.py'', ''log.txt'']) =
     \<lparr>stdout = [''No line found where the third field is less than 6.''],
      traceback = None, status = 0\<rparr>"
proof -
  let ?ls = "readlines log_reversed"
  have o: "open_r (holding log_reversed) ''log.txt'' = None"
    and r: "read (holding log_reversed) ''log.txt'' = Some log_reversed"
    by (simp_all add: holding_def)
  have "next_index start_marker ?ls = Some 2" by code_simp
  then have s: "first_containing start_marker ?ls 2" by (simp only: next_index_Some)
  have "next_index end_marker ?ls = Some 0" by code_simp
  then have e: "first_containing end_marker ?ls 0" by (simp only: next_index_Some)
  have q1: "qualifying (?ls ! 1)" by code_simp
  have q3: "qualifying (?ls ! 3)" by code_simp
  from locator_end_before_start[OF o r s e, of "''firstline.py''"] s e q1 q3
  show ?thesis by (simp add: no_line_found_def)
qed

end
